theory Spec2Isabelle
  imports Main
begin

section \<open>Data model (src/types.ts)\<close>

datatype RowStatus = Active | Analyzing | Completed | Locked

text \<open>
  \<open>ReasoningRow\<close>. The field \<open>id\<close> is called \<open>rowId\<close> here (\<open>id\<close> is HOL's identity
  function). \<open>stepNumber\<close> is only ever 1 or a successor, so it is a \<open>nat\<close>; the optional
  \<open>depthScore\<close> is a number the code stores and never computes with. A string is the
  list of its code units; only code units below 256 are representable.
\<close>

record ReasoningRow =
  rowId :: string
  stepNumber :: nat
  content :: string
  aiInterrogation :: "string option"
  status :: RowStatus
  depthScore :: "int option"

datatype Difficulty = Junior | Senior | Staff | Principal

record Challenge =
  challengeId :: string
  title :: string
  description :: string
  difficulty :: Difficulty
  technicalContext :: string

record SessionResult =
  score :: int
  summary :: string
  strengths :: "string list"
  weaknesses :: "string list"

text \<open>The object \<open>{ text, depthScore }\<close> that \<open>interrogateRow\<close> resolves with.\<close>

record Analysis =
  analysisText :: string
  analysisDepth :: int

section \<open>Promises and the timeout helper (src/services/geminiService.ts)\<close>

datatype error = ApiKeyNotFound | ApiError | SyntaxError

text \<open>
  A promise is modelled by what eventually happens to it: it is fulfilled with a value
  or rejected with an error, a number of milliseconds after it was created, or it stays
  pending for ever.
\<close>

datatype 'a outcome = Resolves nat 'a | Rejects nat error | Never

text \<open>
  The promise built by \<open>withTimeout\<close>: \<open>settled\<close> is the value (and time) of the first
  call of \<open>resolve\<close>, \<open>timerArmed\<close> says whether the timer is still set.
\<close>

record 'a race =
  settled :: "(nat \<times> 'a) option"
  timerArmed :: bool

text \<open>The three callbacks that \<open>withTimeout\<close> registers.\<close>

datatype 'a callback = TimerFires | Then 'a | Catch error

text \<open>\<open>resolve\<close> of a promise: only the first call has an effect.\<close>

definition resolve :: "nat \<Rightarrow> 'a \<Rightarrow> 'a race \<Rightarrow> 'a race" where
  "resolve t v r = (case settled r of None \<Rightarrow> r\<lparr>settled := Some (t, v)\<rparr> | Some _ \<Rightarrow> r)"

text \<open>
  Running one callback at time \<open>t\<close>. The timer callback of a cleared timer never runs;
  the \<open>then\<close> and \<open>catch\<close> callbacks clear the timer before they resolve.
\<close>

fun run_callback :: "'a \<Rightarrow> 'a race \<Rightarrow> nat \<times> 'a callback \<Rightarrow> 'a race" where
  "run_callback fallback r (t, TimerFires) =
     (if timerArmed r then resolve t fallback (r\<lparr>timerArmed := False\<rparr>) else r)"
| "run_callback fallback r (t, Then val) = resolve t val (r\<lparr>timerArmed := False\<rparr>)"
| "run_callback fallback r (t, Catch err) = resolve t fallback (r\<lparr>timerArmed := False\<rparr>)"

text \<open>
  The order in which the event loop runs the callbacks: the timer is due after \<open>ms\<close>
  milliseconds, the \<open>then\<close> or \<open>catch\<close> callback when the operation settles. When both
  are due at the same instant the order is the event loop's choice, \<open>opFirst\<close>.
\<close>

definition before :: "bool \<Rightarrow> nat \<Rightarrow> nat \<Rightarrow> bool" where
  "before opFirst t ms = (t < ms \<or> (t = ms \<and> opFirst))"

definition schedule :: "bool \<Rightarrow> 'a outcome \<Rightarrow> nat \<Rightarrow> (nat \<times> 'a callback) list" where
  "schedule opFirst promise ms =
     (case promise of
        Never \<Rightarrow> [(ms, TimerFires)]
      | Resolves t val \<Rightarrow>
          (if before opFirst t ms then [(t, Then val), (ms, TimerFires)]
           else [(ms, TimerFires), (t, Then val)])
      | Rejects t err \<Rightarrow>
          (if before opFirst t ms then [(t, Catch err), (ms, TimerFires)]
           else [(ms, TimerFires), (t, Catch err)]))"

definition run_callbacks :: "'a \<Rightarrow> (nat \<times> 'a callback) list \<Rightarrow> 'a race" where
  "run_callbacks fallback cbs =
     foldl (run_callback fallback) \<lparr>settled = None, timerArmed = True\<rparr> cbs"

definition withTimeout :: "bool \<Rightarrow> 'a outcome \<Rightarrow> nat \<Rightarrow> 'a \<Rightarrow> 'a outcome" where
  "withTimeout opFirst promise ms fallback =
     (case settled (run_callbacks fallback (schedule opFirst promise ms)) of
        None \<Rightarrow> Never
      | Some (t, v) \<Rightarrow> Resolves t v)"

section \<open>The service functions (src/services/geminiService.ts)\<close>

text \<open>
  What the functions read from outside the program: the environment variable, the
  behaviour of \<open>ai.models.generateContent\<close> on a prompt (a promise of a response whose
  \<open>text\<close> may be absent; the constant model name and schema are left out), \<open>JSON.parse\<close>
  at each of the three result types (\<open>None\<close> when it throws; for a critique, together with
  the reading of the fields \<open>interrogation\<close> and \<open>depthScore\<close>), and the event loop's
  choice at a tie (see \<open>schedule\<close>).
\<close>

record World =
  API_KEY :: "string option"
  generateContent :: "string \<Rightarrow> string option outcome"
  parseChallenges :: "string \<Rightarrow> Challenge list option"
  parseAnalysis :: "string \<Rightarrow> Analysis option"
  parseSessionResult :: "string \<Rightarrow> SessionResult option"
  opWinsTie :: bool

text \<open>\<open>!apiKey\<close> holds of an undefined and of an empty string.\<close>

definition getAI :: "World \<Rightarrow> error + unit" where
  "getAI w =
     (case API_KEY w of
        None \<Rightarrow> Inl ApiKeyNotFound
      | Some apiKey \<Rightarrow> if apiKey = [] then Inl ApiKeyNotFound else Inr ())"

definition FALLBACK_CHALLENGES :: "Challenge list" where
  "FALLBACK_CHALLENGES =
     [\<lparr>challengeId = ''1'', title = ''Scale a Notification System'',
       description = ''Design a notification service delivering 10M pushes/minute with <1s latency.'',
       difficulty = Senior,
       technicalContext = ''High throughput, latency sensitive, fan-out problems. Consider broker choices, worker pools, and deduplication.''\<rparr>,
      \<lparr>challengeId = ''2'', title = ''Optimize LLM Inference'',
       description = ''Optimize inference for a 70B parameter model on 8x A100 GPUs.'',
       difficulty = Staff,
       technicalContext = ''GPU memory bandwidth, tensor parallelism, quantization (FP8 vs INT4), and KV cache management.''\<rparr>,
      \<lparr>challengeId = ''3'', title = ''Distributed Counter'',
       description = ''Design a distributed counter that is strongly consistent and handles massive write contention.'',
       difficulty = Principal,
       technicalContext = ''CAP theorem limits, CRDTs vs Global Locking, database sharding strategies, and conflict resolution.''\<rparr>]"

text \<open>
  The body shared by the three anonymous async functions handed to \<open>withTimeout\<close>: await
  the response; when its text is truthy return the parsed text (a throwing \<open>JSON.parse\<close>
  rejects the promise), otherwise return the fallback.
\<close>

definition generated :: "(string \<Rightarrow> 'a option) \<Rightarrow> 'a \<Rightarrow> string option outcome \<Rightarrow> 'a outcome" where
  "generated parse fallback response =
     (case response of
        Never \<Rightarrow> Never
      | Rejects t err \<Rightarrow> Rejects t err
      | Resolves t None \<Rightarrow> Resolves t fallback
      | Resolves t (Some txt) \<Rightarrow>
          (if txt = [] then Resolves t fallback
           else case parse txt of None \<Rightarrow> Rejects t SyntaxError | Some val \<Rightarrow> Resolves t val))"

definition challengesPrompt :: string where
  "challengesPrompt =
     ''Generate 3 distinct, high-level system design challenges (Senior to Principal level). Return JSON.''"

text \<open>
  Every service function returns the prompts it sent to \<open>generateContent\<close> together with
  its promise. A \<open>throw\<close> before the first \<open>await\<close> rejects the promise at time 0.
\<close>

definition getSuggestedChallenges :: "World \<Rightarrow> string list \<times> Challenge list outcome" where
  "getSuggestedChallenges w =
     (case getAI w of
        Inl err \<Rightarrow> ([], Resolves 0 FALLBACK_CHALLENGES)
      | Inr ai \<Rightarrow>
          ([challengesPrompt],
           withTimeout (opWinsTie w)
             (generated (parseChallenges w) FALLBACK_CHALLENGES (generateContent w challengesPrompt))
             1500 FALLBACK_CHALLENGES))"

text \<open>\<open>xs.slice(-n)\<close>: the last \<open>n\<close> elements, all of them when there are fewer.\<close>

definition slice_last :: "nat \<Rightarrow> 'a list \<Rightarrow> 'a list" where
  "slice_last n xs = drop (length xs - n) xs"

fun join :: "string \<Rightarrow> string list \<Rightarrow> string" where
  "join sep [] = []"
| "join sep [x] = x"
| "join sep (x # y # ys) = x @ sep @ join sep (y # ys)"

fun show_nat :: "nat \<Rightarrow> string" where
  "show_nat n =
     (if n < 10 then [char_of (48 + n)]
      else show_nat (n div 10) @ [char_of (48 + n mod 10)])"

definition nl :: string where
  "nl = [CHR 0x0A]"

definition historyLine :: "ReasoningRow \<Rightarrow> string" where
  "historyLine h = ''Step '' @ show_nat (stepNumber h) @ '': '' @ content h"

definition interrogatePrompt :: "string \<Rightarrow> ReasoningRow list \<Rightarrow> Challenge \<Rightarrow> string" where
  "interrogatePrompt currentInput history challenge =
     nl @ ''    Role: Skeptical Principal Engineer.'' @
     nl @ ''    Context: System Design: '' @ title challenge @ ''.'' @
     nl @ ''    Previous: '' @ join nl (map historyLine (slice_last 3 history)) @
     nl @ ''    Current: '' @ [CHR 0x22] @ currentInput @ [CHR 0x22] @
     nl @ ''    '' @
     nl @ ''    Task: One short, sharp question (max 15 words) challenging the trade-offs. Rate depth (1-10).'' @
     nl @ ''  ''"

definition fallbackResponse :: Analysis where
  "fallbackResponse =
     \<lparr>analysisText = ''Can you elaborate on the specific trade-offs of this choice?'',
      analysisDepth = 5\<rparr>"

definition interrogateRow ::
  "World \<Rightarrow> string \<Rightarrow> ReasoningRow list \<Rightarrow> Challenge \<Rightarrow> string list \<times> Analysis outcome" where
  "interrogateRow w currentInput history challenge =
     (case getAI w of
        Inl err \<Rightarrow> ([], Rejects 0 err)
      | Inr ai \<Rightarrow>
          (let prompt = interrogatePrompt currentInput history challenge in
           ([prompt],
            withTimeout (opWinsTie w)
              (generated (parseAnalysis w) fallbackResponse (generateContent w prompt))
              4000 fallbackResponse)))"

text \<open>An absent \<open>aiInterrogation\<close> is printed as \<open>null\<close> by the template string.\<close>

definition transcriptEntry :: "ReasoningRow \<Rightarrow> string" where
  "transcriptEntry r =
     ''User: '' @ content r @ nl @ ''AI: '' @
     (case aiInterrogation r of None \<Rightarrow> ''null'' | Some q \<Rightarrow> q)"

definition transcriptEntries :: "ReasoningRow list \<Rightarrow> string list" where
  "transcriptEntries rs = map transcriptEntry (slice_last 20 rs)"

definition transcript :: "ReasoningRow list \<Rightarrow> string" where
  "transcript rs = join (nl @ nl) (transcriptEntries rs)"

definition evaluatePrompt :: "ReasoningRow list \<Rightarrow> Challenge \<Rightarrow> string" where
  "evaluatePrompt rs challenge =
     nl @ ''    Evaluate this session. Challenge: '' @ title challenge @ ''.'' @
     nl @ ''    Transcript: '' @ transcript rs @
     nl @ ''    Return JSON.'' @
     nl @ ''  ''"

definition fallbackResult :: SessionResult where
  "fallbackResult =
     \<lparr>score = 0, summary = ''Could not generate report due to timeout or error.'',
      strengths = [''N/A''], weaknesses = [''N/A'']\<rparr>"

definition evaluateSession ::
  "World \<Rightarrow> ReasoningRow list \<Rightarrow> Challenge \<Rightarrow> string list \<times> SessionResult outcome" where
  "evaluateSession w rs challenge =
     (case getAI w of
        Inl err \<Rightarrow> ([], Rejects 0 err)
      | Inr ai \<Rightarrow>
          (let prompt = evaluatePrompt rs challenge in
           ([prompt],
            withTimeout (opWinsTie w)
              (generated (parseSessionResult w) fallbackResult (generateContent w prompt))
              8000 fallbackResult)))"

section \<open>The session state and its operations (src/App.tsx)\<close>

text \<open>
  \<open>src/App.tsx\<close> holds two versions of the component; the definitions follow the second
  one (lines 255 to 531), which goes with \<open>src/services/geminiService.ts\<close>.
\<close>

text \<open>
  An async handler that is suspended at its \<open>await\<close>: what it captured when it was
  called, and the promise it waits for.
\<close>

datatype continuation =
    AfterInterrogate string ReasoningRow "Analysis outcome"
  | AfterEvaluate "SessionResult outcome"

text \<open>
  The component's state (\<open>activeChallenge\<close>, \<open>rows\<close>, \<open>isLoading\<close>, \<open>sessionResult\<close>),
  the suspended handlers, and what the component did to the outside: the prompts sent and
  the alerts shown.
\<close>

record App =
  activeChallenge :: "Challenge option"
  rows :: "ReasoningRow list"
  isLoading :: bool
  sessionResult :: "SessionResult option"
  inflight :: "continuation list"
  requests :: "string list"
  alerts :: "string list"

definition initial :: App where
  "initial = \<lparr>activeChallenge = None, rows = [], isLoading = False, sessionResult = None,
     inflight = [], requests = [], alerts = []\<rparr>"

text \<open>The row literal of \<open>startChallenge\<close> and \<open>submitRow\<close>; \<open>uuid\<close> is the result of \<open>safeUUID()\<close>.\<close>

definition newRow :: "string \<Rightarrow> nat \<Rightarrow> ReasoningRow" where
  "newRow uuid n =
     \<lparr>rowId = uuid, stepNumber = n, content = [], aiInterrogation = None,
      status = Active, depthScore = None\<rparr>"

definition startChallenge :: "string \<Rightarrow> Challenge \<Rightarrow> App \<Rightarrow> App" where
  "startChallenge uuid challenge s =
     s\<lparr>activeChallenge := Some challenge, sessionResult := None, rows := [newRow uuid 1]\<rparr>"

definition updateRow :: "string \<Rightarrow> string \<Rightarrow> App \<Rightarrow> App" where
  "updateRow i c s =
     s\<lparr>rows := map (\<lambda>row. if rowId row = i then row\<lparr>content := c\<rparr> else row) (rows s)\<rparr>"

definition setStatus :: "string \<Rightarrow> RowStatus \<Rightarrow> ReasoningRow list \<Rightarrow> ReasoningRow list" where
  "setStatus i st prev = map (\<lambda>r. if rowId r = i then r\<lparr>status := st\<rparr> else r) prev"

definition attach :: "string \<Rightarrow> Analysis \<Rightarrow> ReasoningRow list \<Rightarrow> ReasoningRow list" where
  "attach i analysis prev =
     map (\<lambda>r. if rowId r = i
               then r\<lparr>status := Completed, aiInterrogation := Some (analysisText analysis),
                      depthScore := Some (analysisDepth analysis)\<rparr>
               else r) prev"

text \<open>The rest of \<open>submitRow\<close>'s \<open>try\<close> block once \<open>interrogateRow\<close> has resolved.\<close>

definition submitRow_fulfilled :: "string \<Rightarrow> ReasoningRow \<Rightarrow> Analysis \<Rightarrow> string \<Rightarrow> App \<Rightarrow> App" where
  "submitRow_fulfilled i row analysis uuid s =
     s\<lparr>rows := attach i analysis (rows s) @ [newRow uuid (stepNumber row + 1)]\<rparr>"

text \<open>\<open>submitRow\<close>'s \<open>catch\<close> block.\<close>

definition submitRow_rejected :: "string \<Rightarrow> App \<Rightarrow> App" where
  "submitRow_rejected i s =
     s\<lparr>rows := setStatus i Active (rows s),
       alerts := alerts s @ [''Something went wrong analyzing your step. Please try again.'']\<rparr>"

text \<open>
  A handler that awaits a promise already rejected runs its \<open>catch\<close> block before any
  other event is handled; otherwise it stays suspended until \<open>settle\<close>.
\<close>

definition submitRow :: "World \<Rightarrow> string \<Rightarrow> App \<Rightarrow> App" where
  "submitRow w i s =
     (case find (\<lambda>r. rowId r = i) (rows s) of
        None \<Rightarrow> s
      | Some row \<Rightarrow>
          (case activeChallenge s of
             None \<Rightarrow> s
           | Some challenge \<Rightarrow>
               if status row \<noteq> Active then s
               else
                 (let previousRows = filter (\<lambda>r. stepNumber r < stepNumber row) (rows s);
                      (sent, analysis) = interrogateRow w (content row) previousRows challenge;
                      s' = s\<lparr>rows := setStatus i Analyzing (rows s),
                             requests := requests s @ sent\<rparr>
                  in case analysis of
                       Rejects t err \<Rightarrow>
                         if t = 0 then submitRow_rejected i s'
                         else s'\<lparr>inflight := inflight s' @ [AfterInterrogate i row analysis]\<rparr>
                     | _ \<Rightarrow> s'\<lparr>inflight := inflight s' @ [AfterInterrogate i row analysis]\<rparr>)))"

text \<open>
  \<open>s.trim()\<close> removes white space and line terminators at both ends; these are the ones
  among the code units below 256.
\<close>

definition isWhiteSpace :: "char \<Rightarrow> bool" where
  "isWhiteSpace c =
     (c \<in> set [CHR 0x09, CHR 0x0A, CHR 0x0B, CHR 0x0C, CHR 0x0D, CHR 0x20, CHR 0xA0])"

definition trim :: "string \<Rightarrow> string" where
  "trim s = rev (dropWhile isWhiteSpace (rev (dropWhile isWhiteSpace s)))"

definition finishSession_fulfilled :: "SessionResult \<Rightarrow> App \<Rightarrow> App" where
  "finishSession_fulfilled result s = s\<lparr>sessionResult := Some result, isLoading := False\<rparr>"

definition finishSession_rejected :: "App \<Rightarrow> App" where
  "finishSession_rejected s =
     s\<lparr>alerts := alerts s @ [''Failed to generate report. Please try again.''],
       isLoading := False\<rparr>"

definition validRows :: "ReasoningRow list \<Rightarrow> ReasoningRow list" where
  "validRows rs = filter (\<lambda>r. status r = Completed \<or> 0 < length (trim (content r))) rs"

definition finishSession :: "World \<Rightarrow> App \<Rightarrow> App" where
  "finishSession w s =
     (case activeChallenge s of
        None \<Rightarrow> s
      | Some challenge \<Rightarrow>
          (let (sent, result) = evaluateSession w (validRows (rows s)) challenge;
               s' = s\<lparr>isLoading := True, requests := requests s @ sent\<rparr>
           in case result of
                Rejects t err \<Rightarrow>
                  if t = 0 then finishSession_rejected s'
                  else s'\<lparr>inflight := inflight s' @ [AfterEvaluate result]\<rparr>
              | _ \<Rightarrow> s'\<lparr>inflight := inflight s' @ [AfterEvaluate result]\<rparr>))"

text \<open>
  The \<open>k\<close>-th suspended handler resumes because its promise settled; \<open>uuid\<close> is what
  \<open>safeUUID()\<close> returns if the handler calls it. A promise that never settles resumes
  nothing.
\<close>

definition remove_nth :: "nat \<Rightarrow> 'a list \<Rightarrow> 'a list" where
  "remove_nth k xs = take k xs @ drop (Suc k) xs"

definition settle :: "nat \<Rightarrow> string \<Rightarrow> App \<Rightarrow> App" where
  "settle k uuid s =
     (if length (inflight s) \<le> k then s
      else
        (let s' = s\<lparr>inflight := remove_nth k (inflight s)\<rparr> in
         case inflight s ! k of
           AfterInterrogate i row promise \<Rightarrow>
             (case promise of
                Resolves t analysis \<Rightarrow> submitRow_fulfilled i row analysis uuid s'
              | Rejects t err \<Rightarrow> submitRow_rejected i s'
              | Never \<Rightarrow> s)
         | AfterEvaluate promise \<Rightarrow>
             (case promise of
                Resolves t result \<Rightarrow> finishSession_fulfilled result s'
              | Rejects t err \<Rightarrow> finishSession_rejected s'
              | Never \<Rightarrow> s)))"

section \<open>The view (src/App.tsx, src/components/WorksheetRow.tsx)\<close>

record KeyboardEvent =
  key :: string
  shiftKey :: bool

text \<open>\<open>handleKeyDown\<close> of the row's text area, with \<open>onSubmit\<close> bound to \<open>submitRow\<close>.\<close>

definition handleKeyDown :: "World \<Rightarrow> KeyboardEvent \<Rightarrow> ReasoningRow \<Rightarrow> App \<Rightarrow> App" where
  "handleKeyDown w e row s =
     (if key e = ''Enter'' \<and> \<not> shiftKey e
      then (if 0 < length (trim (content row)) then submitRow w (rowId row) s else s)
      else s)"

text \<open>The text area of a row is disabled when \<open>isLocked\<close>.\<close>

definition isLocked :: "ReasoningRow \<Rightarrow> bool" where
  "isLocked row = (status row = Completed \<or> status row = Analyzing \<or> status row = Locked)"

text \<open>The \<open>disabled\<close> attribute of the button whose \<open>onClick\<close> is \<open>finishSession\<close>.\<close>

definition finishDisabled :: "App \<Rightarrow> bool" where
  "finishDisabled s =
     (isLoading s \<or> length (filter (\<lambda>r. status r = Completed) (rows s)) < 2)"

section \<open>Runs of the session\<close>

datatype event =
    StartChallenge string Challenge
  | UpdateRow string string
  | SubmitRow string
  | FinishSession
  | Settle nat string

fun step :: "App \<Rightarrow> World \<times> event \<Rightarrow> App" where
  "step s (w, StartChallenge uuid challenge) = startChallenge uuid challenge s"
| "step s (w, UpdateRow i c) = updateRow i c s"
| "step s (w, SubmitRow i) = submitRow w i s"
| "step s (w, FinishSession) = finishSession w s"
| "step s (w, Settle k uuid) = settle k uuid s"

definition run :: "(World \<times> event) list \<Rightarrow> App" where
  "run evs = foldl step initial evs"

text \<open>
  The step sequence positions are exactly 1..N in order, and every step but the last is
  \<open>Completed\<close>.
\<close>

definition positions_ok :: "ReasoningRow list \<Rightarrow> bool" where
  "positions_ok rs = (map stepNumber rs = [1..<Suc (length rs)])"

definition lifecycle_ok :: "ReasoningRow list \<Rightarrow> bool" where
  "lifecycle_ok rs = list_all (\<lambda>r. status r = Completed) (butlast rs)"

text \<open>The number of \<open>Completed\<close> steps, which the button's \<open>disabled\<close> attribute compares with 2.\<close>

definition completedCount :: "App \<Rightarrow> nat" where
  "completedCount s = length (filter (\<lambda>r. status r = Completed) (rows s))"

text \<open>
  An event is admissible when it does not start a session while a handler of \<open>submitRow\<close>
  is suspended. Every other event is admissible at any time.
\<close>

fun isInterrogate :: "continuation \<Rightarrow> bool" where
  "isInterrogate (AfterInterrogate i row promise) = True"
| "isInterrogate (AfterEvaluate promise) = False"

fun admissible :: "App \<Rightarrow> World \<times> event \<Rightarrow> bool" where
  "admissible s (w, StartChallenge uuid challenge) = (filter isInterrogate (inflight s) = [])"
| "admissible s (w, UpdateRow i c) = True"
| "admissible s (w, SubmitRow i) = True"
| "admissible s (w, FinishSession) = True"
| "admissible s (w, Settle k uuid) = True"

fun admissible_from :: "App \<Rightarrow> (World \<times> event) list \<Rightarrow> bool" where
  "admissible_from s [] = True"
| "admissible_from s (e # es) = (admissible s e \<and> admissible_from (step s e) es)"

text \<open>
  What holds of the rows while a handler of \<open>submitRow\<close> is suspended: the step it
  submitted is the last row, is \<open>Analyzing\<close>, no other row has its id, and the position it
  captured is the last one.
\<close>

fun pending_ok :: "ReasoningRow list \<Rightarrow> continuation \<Rightarrow> bool" where
  "pending_ok rs (AfterInterrogate i row promise) =
     (rs \<noteq> [] \<and> rowId (last rs) = i \<and> status (last rs) = Analyzing \<and>
      stepNumber row = length rs \<and> list_all (\<lambda>r. rowId r \<noteq> i) (butlast rs))"
| "pending_ok rs (AfterEvaluate promise) = True"

definition session_inv :: "App \<Rightarrow> bool" where
  "session_inv s =
     (positions_ok (rows s) \<and> lifecycle_ok (rows s) \<and>
      length (filter isInterrogate (inflight s)) \<le> 1 \<and>
      list_all (pending_ok (rows s)) (inflight s))"

section \<open>Sample worlds and runs\<close>

definition sampleChallenge :: Challenge where
  "sampleChallenge =
     \<lparr>challengeId = ''3'', title = ''Distributed Counter'',
      description = ''Design a distributed counter.'', difficulty = Principal,
      technicalContext = ''CAP theorem limits''\<rparr>"

text \<open>A world with a key whose service never answers: every call ends in its fallback.\<close>

definition silentWorld :: World where
  "silentWorld =
     \<lparr>API_KEY = Some ''key'', generateContent = (\<lambda>prompt. Never),
      parseChallenges = (\<lambda>txt. None), parseAnalysis = (\<lambda>txt. None),
      parseSessionResult = (\<lambda>txt. None), opWinsTie = False\<rparr>"

text \<open>
  A world whose service answers every prompt after 900 ms with the JSON text of one
  critique, which \<open>JSON.parse\<close> reads as that critique (and no other text of these worlds
  as a critique).
\<close>

definition critiqueJson :: string where
  "critiqueJson =
     ''{'' @ [CHR 0x22] @ ''interrogation'' @ [CHR 0x22] @ '': '' @
     [CHR 0x22] @ ''Why hash ring over range sharding?'' @ [CHR 0x22] @ '', '' @
     [CHR 0x22] @ ''depthScore'' @ [CHR 0x22] @ '': 7}''"

definition answeringWorld :: World where
  "answeringWorld =
     silentWorld\<lparr>generateContent := (\<lambda>prompt. Resolves 900 (Some critiqueJson)),
       parseAnalysis :=
         (\<lambda>txt. if txt = critiqueJson
                then Some \<lparr>analysisText = ''Why hash ring over range sharding?'',
                           analysisDepth = 7\<rparr>
                else None)\<rparr>"

text \<open>A world without the environment variable.\<close>

definition keylessWorld :: World where
  "keylessWorld = silentWorld\<lparr>API_KEY := None\<rparr>"

definition enterKey :: KeyboardEvent where
  "enterKey = \<lparr>key = ''Enter'', shiftKey = False\<rparr>"

text \<open>A session is started and its first step is typed.\<close>

definition firstTyped :: "World \<Rightarrow> (World \<times> event) list" where
  "firstTyped w =
     [(w, StartChallenge ''a'' sampleChallenge),
      (w, UpdateRow ''a'' ''use a hash ring for sharding'')]"

text \<open>The first step is submitted and its critique arrives.\<close>

definition oneCritiqued :: "(World \<times> event) list" where
  "oneCritiqued = firstTyped answeringWorld @
     [(answeringWorld, SubmitRow ''a''), (answeringWorld, Settle 0 ''b'')]"

definition twoCritiqued :: "(World \<times> event) list" where
  "twoCritiqued = oneCritiqued @
     [(answeringWorld, UpdateRow ''b'' ''replicate each shard three times''),
      (answeringWorld, SubmitRow ''b''),
      (answeringWorld, Settle 0 ''c'')]"

text \<open>The session is submitted for grading after two critiques; the grading is in flight.\<close>

definition grading :: "(World \<times> event) list" where
  "grading = twoCritiqued @ [(silentWorld, FinishSession)]"

text \<open>A session whose only step holds three spaces.\<close>

definition blankTyped :: "(World \<times> event) list" where
  "blankTyped =
     [(silentWorld, StartChallenge ''a'' sampleChallenge),
      (silentWorld, UpdateRow ''a'' ''   '')]"



text \<open>
  After one critique the second step is submitted; while its critique is in flight another
  session is started; then the critique call returns (its fallback, after 4000 ms).
\<close>

definition restartWhileInFlight :: "(World \<times> event) list" where
  "restartWhileInFlight = oneCritiqued @
     [(silentWorld, UpdateRow ''b'' ''replicate each shard three times''),
      (silentWorld, SubmitRow ''b''),
      (silentWorld, StartChallenge ''x'' sampleChallenge),
      (silentWorld, Settle 0 ''y'')]"

text \<open>Twenty-one critiqued steps.\<close>

definition manyRows :: "ReasoningRow list" where
  "manyRows =
     map (\<lambda>n. (newRow (show_nat n) n)\<lparr>content := ''step '' @ show_nat n,
                   aiInterrogation := Some ''why?'', status := Completed, depthScore := Some 5\<rparr>)
       [1..<22]"

section \<open>The timeout helper: what the caller observes\<close>

lemma run_callback_settled_once:
  "settled r = Some x \<Longrightarrow> settled (run_callback fallback r cb) = Some x"
  by (cases cb; cases "snd cb") (auto simp: resolve_def)

lemma foldl_run_callback_settled_once:
  "settled r = Some x \<Longrightarrow> settled (foldl (run_callback fallback) r cbs) = Some x"
  by (induction cbs arbitrary: r) (simp_all add: run_callback_settled_once)

lemma run_callbacks_late:
  assumes "settled (run_callbacks fallback (take n cbs)) = Some x"
  shows "settled (run_callbacks fallback cbs) = Some x"
proof -
  have "cbs = take n cbs @ drop n cbs" by simp
  then have "run_callbacks fallback cbs =
      foldl (run_callback fallback) (run_callbacks fallback (take n cbs)) (drop n cbs)"
    unfolding run_callbacks_def by (metis foldl_append)
  with assms show ?thesis by (simp add: foldl_run_callback_settled_once)
qed

lemma withTimeout_Resolves:
  "withTimeout opFirst (Resolves t v) ms fallback =
     (if before opFirst t ms then Resolves t v else Resolves ms fallback)"
  by (simp add: withTimeout_def run_callbacks_def schedule_def resolve_def)

lemma withTimeout_Rejects:
  "withTimeout opFirst (Rejects t e) ms fallback =
     (if before opFirst t ms then Resolves t fallback else Resolves ms fallback)"
  by (simp add: withTimeout_def run_callbacks_def schedule_def resolve_def)

lemma withTimeout_Never:
  "withTimeout opFirst Never ms fallback = Resolves ms fallback"
  by (simp add: withTimeout_def run_callbacks_def schedule_def resolve_def)

lemma withTimeout_total:
  "\<exists>t v. withTimeout opFirst promise ms fallback = Resolves t v"
  by (cases promise) (simp_all add: withTimeout_Resolves withTimeout_Rejects withTimeout_Never)

text \<open>
  C1. \<open>withTimeout\<close> returns the operation's value when the operation resolves before
  the deadline, and the fallback when the operation rejects (at any time), resolves
  after the deadline or never settles. At the very instant of the deadline the result is
  that of the callback the event loop runs first. The returned promise always settles,
  with one value, and once a callback has settled it no later callback changes it.
\<close>

theorem withTimeout_contract:
  "(t < ms \<longrightarrow> withTimeout opFirst (Resolves t v) ms fallback = Resolves t v) \<and>
   (ms < t \<longrightarrow> withTimeout opFirst (Resolves t v) ms fallback = Resolves ms fallback) \<and>
   (t = ms \<longrightarrow> withTimeout opFirst (Resolves t v) ms fallback =
       Resolves ms (if opFirst then v else fallback)) \<and>
   withTimeout opFirst (Rejects t e) ms fallback = Resolves (min t ms) fallback \<and>
   withTimeout opFirst Never ms fallback = Resolves ms fallback \<and>
   (\<exists>t' x. withTimeout opFirst promise ms fallback = Resolves t' x \<and>
       (x = fallback \<or> (\<exists>t''. promise = Resolves t'' x))) \<and>
   (\<forall>n x. settled (run_callbacks fallback (take n (schedule opFirst promise ms))) = Some x
       \<longrightarrow> settled (run_callbacks fallback (schedule opFirst promise ms)) = Some x)"
proof -
  have "\<exists>t' x. withTimeout opFirst promise ms fallback = Resolves t' x \<and>
       (x = fallback \<or> (\<exists>t''. promise = Resolves t'' x))"
    by (cases promise) (simp_all add: withTimeout_Resolves withTimeout_Rejects withTimeout_Never)
  moreover have "withTimeout opFirst (Rejects t e) ms fallback = Resolves (min t ms) fallback"
    by (auto simp: withTimeout_Rejects before_def min_def)
  ultimately show ?thesis
    by (auto simp: withTimeout_Resolves withTimeout_Never before_def
        intro: run_callbacks_late)
qed

text \<open>
  An operation that resolves with 7 after 10 ms under a deadline of 4000 ms, and the same
  operation under a deadline of 5 ms: the timer callback settles the promise with the
  fallback 0, and the late \<open>then\<close> callback leaves it so.
\<close>

theorem withTimeout_contract_witness:
  "(10::nat) < 4000 \<and> withTimeout False (Resolves 10 (7::int)) 4000 0 = Resolves 10 7 \<and>
   (5::nat) < 10 \<and> withTimeout False (Resolves 10 (7::int)) 5 0 = Resolves 5 0 \<and>
   settled (run_callbacks (0::int) (take 1 (schedule False (Resolves 10 7) 5))) = Some (5, 0) \<and>
   settled (run_callbacks (0::int) (schedule False (Resolves 10 7) 5)) = Some (5, 0)"
proof -
  have a: "(10::nat) < 4000" and b: "(5::nat) < 10" by simp_all
  have c: "settled (run_callbacks (0::int) (take 1 (schedule False (Resolves 10 7) 5))) = Some (5, 0)"
    by (simp add: schedule_def before_def run_callbacks_def resolve_def)
  from withTimeout_contract [of 10 4000 False "7::int" 0 ApiError "Resolves 10 7"] a
  have 1: "withTimeout False (Resolves 10 (7::int)) 4000 0 = Resolves 10 7" by blast
  from withTimeout_contract [of 10 5 False "7::int" 0 ApiError "Resolves 10 7"] b c
  have 2: "withTimeout False (Resolves 10 (7::int)) 5 0 = Resolves 5 0"
    and 3: "settled (run_callbacks (0::int) (schedule False (Resolves 10 7) 5)) = Some (5, 0)"
    by blast+
  from a b c 1 2 3 show ?thesis by simp
qed

section \<open>Facts about the operations\<close>

lemma find_id_None:
  "find (\<lambda>r. rowId r = i) rs = None \<longleftrightarrow> (\<forall>r \<in> set rs. rowId r \<noteq> i)"
  by (auto simp: find_None_iff)

lemma find_id_Some:
  "find (\<lambda>r. rowId r = i) rs = Some row \<Longrightarrow> row \<in> set rs \<and> rowId row = i"
  by (auto simp: find_Some_iff)

lemma interrogateRow_key:
  "getAI w = Inr u \<Longrightarrow>
   \<exists>t a. interrogateRow w x h c = ([interrogatePrompt x h c], Resolves t a)"
  using withTimeout_total [of "opWinsTie w"
      "generated (parseAnalysis w) fallbackResponse (generateContent w (interrogatePrompt x h c))"
      4000 fallbackResponse]
  by (auto simp: interrogateRow_def Let_def)

lemma interrogateRow_nokey:
  "getAI w = Inl err \<Longrightarrow> interrogateRow w x h c = ([], Rejects 0 err)"
  by (simp add: interrogateRow_def)

text \<open>The promise of \<open>interrogateRow\<close> is rejected only by the throw of \<open>getAI\<close>.\<close>

lemma interrogateRow_rejects:
  assumes "snd (interrogateRow w x h c) = Rejects t err"
  shows "getAI w = Inl err \<and> t = 0"
proof (cases "getAI w")
  case (Inl e)
  with assms show ?thesis by (simp add: interrogateRow_nokey)
next
  case (Inr u)
  from interrogateRow_key [OF this, of x h c] assms show ?thesis by auto
qed

lemma evaluateSession_key:
  "getAI w = Inr u \<Longrightarrow>
   \<exists>t r. evaluateSession w rs c = ([evaluatePrompt rs c], Resolves t r)"
  using withTimeout_total [of "opWinsTie w"
      "generated (parseSessionResult w) fallbackResult (generateContent w (evaluatePrompt rs c))"
      8000 fallbackResult]
  by (auto simp: evaluateSession_def Let_def)

lemma finishSession_requests:
  assumes "activeChallenge s = Some challenge" and "getAI w = Inr u"
  shows "requests (finishSession w s) = requests s @ [evaluatePrompt (validRows (rows s)) challenge]"
proof -
  from evaluateSession_key [OF assms(2), of "validRows (rows s)" challenge]
  obtain t r where "evaluateSession w (validRows (rows s)) challenge =
      ([evaluatePrompt (validRows (rows s)) challenge], Resolves t r)" by blast
  with assms(1) show ?thesis by (simp add: finishSession_def)
qed

lemma attach_setStatus: "attach i a (setStatus i st rs) = attach i a rs"
  by (induction rs) (simp_all add: setStatus_def attach_def)

lemma all_dropWhile:
  "(\<forall>x \<in> set (dropWhile P xs). P x) \<longleftrightarrow> (\<forall>x \<in> set xs. P x)"
  by (induction xs) auto

text \<open>
  The code's test for a blank content, \<open>content.trim().length > 0\<close> being false, is the
  spec's: the content is empty or consists of white space only.
\<close>

lemma trim_blank: "length (trim s) = 0 \<longleftrightarrow> (\<forall>ch \<in> set s. isWhiteSpace ch)"
  by (simp add: trim_def dropWhile_eq_Nil_conv all_dropWhile)

section \<open>Submitting a step\<close>

text \<open>
  A step that is submitted (found, \<open>Active\<close>, with an active challenge and a key present)
  becomes \<open>Analyzing\<close>, and its handler is suspended with the row it found and the promise
  of the critique call, which always resolves. If that handler resumes at once, every row
  with the step's id is \<open>Completed\<close> with the returned text and depth score and one row
  is appended.
\<close>

lemma submitRow_suspends:
  assumes "find (\<lambda>r. rowId r = i) (rows s) = Some row" and "status row = Active"
    and "activeChallenge s = Some challenge" and "getAI w = Inr u"
  shows "\<exists>t analysis.
           snd (interrogateRow w (content row)
                  (filter (\<lambda>r. stepNumber r < stepNumber row) (rows s)) challenge) =
             Resolves t analysis \<and>
           inflight (submitRow w i s) = inflight s @ [AfterInterrogate i row (Resolves t analysis)] \<and>
           rows (submitRow w i s) = setStatus i Analyzing (rows s) \<and>
           rows (settle (length (inflight s)) uuid (submitRow w i s)) =
             map (\<lambda>r. if rowId r = i
                       then r\<lparr>status := Completed, aiInterrogation := Some (analysisText analysis),
                              depthScore := Some (analysisDepth analysis)\<rparr>
                       else r) (rows s)
             @ [\<lparr>rowId = uuid, stepNumber = stepNumber row + 1, content = [],
                 aiInterrogation = None, status = Active, depthScore = None\<rparr>] \<and>
           row \<in> set (rows s) \<and> rowId row = i"
proof -
  let ?prev = "filter (\<lambda>r. stepNumber r < stepNumber row) (rows s)"
  from interrogateRow_key [OF assms(4)]
  obtain t a where ir: "interrogateRow w (content row) ?prev challenge =
      ([interrogatePrompt (content row) ?prev challenge], Resolves t a)"
    by blast
  have sub: "submitRow w i s =
      s\<lparr>rows := setStatus i Analyzing (rows s),
        requests := requests s @ [interrogatePrompt (content row) ?prev challenge],
        inflight := inflight s @ [AfterInterrogate i row (Resolves t a)]\<rparr>"
    using assms(1-3) ir by (simp add: submitRow_def)
  have "rows (settle (length (inflight s)) uuid (submitRow w i s)) =
      attach i a (rows s) @ [newRow uuid (stepNumber row + 1)]"
    unfolding sub by (simp add: settle_def submitRow_fulfilled_def attach_setStatus remove_nth_def)
  with sub ir find_id_Some [OF assms(1)] show ?thesis
    by (intro exI [of _ t] exI [of _ a]) (simp add: attach_def newRow_def)
qed

text \<open>
  C6. When the critique call rejects (which only the missing key makes it do), a submitted
  step that was set to \<open>Analyzing\<close> is set back to \<open>Active\<close>: the number of rows is the
  same, each row with the step's id is \<open>Active\<close> with its content as before, the alert
  is shown, and no request was sent and no handler is left suspended.
\<close>

theorem submitRow_reverts:
  assumes "find (\<lambda>r. rowId r = i) (rows s) = Some row" and "status row = Active"
    and "activeChallenge s = Some challenge"
    and "snd (interrogateRow w (content row)
                (filter (\<lambda>r. stepNumber r < stepNumber row) (rows s)) challenge) = Rejects t err"
  shows "submitRow w i s =
           s\<lparr>rows := setStatus i Active (setStatus i Analyzing (rows s)),
             alerts := alerts s @ [''Something went wrong analyzing your step. Please try again.'']\<rparr> \<and>
         length (rows (submitRow w i s)) = length (rows s) \<and>
         (\<forall>k < length (rows s). rowId (rows s ! k) = i \<longrightarrow>
            status (rows (submitRow w i s) ! k) = Active \<and>
            content (rows (submitRow w i s) ! k) = content (rows s ! k)) \<and>
         (\<forall>k < length (rows s). rowId (rows s ! k) \<noteq> i \<longrightarrow>
            rows (submitRow w i s) ! k = rows s ! k) \<and>
         inflight (submitRow w i s) = inflight s \<and> requests (submitRow w i s) = requests s"
proof -
  from interrogateRow_rejects [OF assms(4)] have "getAI w = Inl err" by simp
  then have eq: "submitRow w i s =
           s\<lparr>rows := setStatus i Active (setStatus i Analyzing (rows s)),
             alerts := alerts s @ [''Something went wrong analyzing your step. Please try again.'']\<rparr>"
    using assms(1-3) by (simp add: submitRow_def interrogateRow_nokey submitRow_rejected_def)
  show ?thesis
    unfolding eq by (simp add: setStatus_def)
qed

theorem submitRow_reverts_witness:
  "find (\<lambda>r. rowId r = ''a'') (rows (run (firstTyped keylessWorld))) =
     Some ((newRow ''a'' 1)\<lparr>content := ''use a hash ring for sharding''\<rparr>) \<and>
   activeChallenge (run (firstTyped keylessWorld)) = Some sampleChallenge \<and>
   snd (interrogateRow keylessWorld ''use a hash ring for sharding'' [] sampleChallenge) =
     Rejects 0 ApiKeyNotFound \<and>
   rows (submitRow keylessWorld ''a'' (run (firstTyped keylessWorld))) =
     [(newRow ''a'' 1)\<lparr>content := ''use a hash ring for sharding''\<rparr>] \<and>
   alerts (submitRow keylessWorld ''a'' (run (firstTyped keylessWorld))) =
     [''Something went wrong analyzing your step. Please try again.'']"
proof -
  let ?s = "run (firstTyped keylessWorld)"
  let ?row = "(newRow ''a'' 1)\<lparr>content := ''use a hash ring for sharding''\<rparr>"
  have h1: "find (\<lambda>r. rowId r = ''a'') (rows ?s) = Some ?row" by code_simp
  have h2: "status ?row = Active" by code_simp
  have h3: "activeChallenge ?s = Some sampleChallenge" by code_simp
  have h4: "snd (interrogateRow keylessWorld (content ?row)
      (filter (\<lambda>r. stepNumber r < stepNumber ?row) (rows ?s)) sampleChallenge) =
      Rejects 0 ApiKeyNotFound"
    by code_simp
  have h4': "snd (interrogateRow keylessWorld ''use a hash ring for sharding'' [] sampleChallenge) =
     Rejects 0 ApiKeyNotFound"
    by code_simp
  have rs: "rows ?s = [?row]" and al: "alerts ?s = []" by code_simp+
  from submitRow_reverts [OF h1 h2 h3 h4]
  have "submitRow keylessWorld ''a'' ?s =
      ?s\<lparr>rows := setStatus ''a'' Active (setStatus ''a'' Analyzing (rows ?s)),
        alerts := alerts ?s @ [''Something went wrong analyzing your step. Please try again.'']\<rparr>"
    by blast
  then have "rows (submitRow keylessWorld ''a'' ?s) = [?row]"
    and "alerts (submitRow keylessWorld ''a'' ?s) =
      [''Something went wrong analyzing your step. Please try again.'']"
    by (simp_all add: rs al setStatus_def newRow_def)
  with h1 h3 h4' show ?thesis by blast
qed

text \<open>
  C10. \<open>updateRow\<close> and \<open>submitRow\<close> with an id that no row has, and \<open>submitRow\<close> without an
  active challenge or on a row that is not \<open>Active\<close>, return the state they were given:
  rows, challenge, result, suspended handlers, requests sent and alerts are all the same.
  Neither function has a \<open>throw\<close> on these paths.
\<close>

theorem guards_leave_state:
  "(find (\<lambda>r. rowId r = i) (rows s) = None \<longrightarrow> updateRow i c s = s \<and> submitRow w i s = s) \<and>
   (activeChallenge s = None \<longrightarrow> submitRow w i s = s) \<and>
   (\<forall>row. find (\<lambda>r. rowId r = i) (rows s) = Some row \<and> status row \<noteq> Active
       \<longrightarrow> submitRow w i s = s)"
proof -
  have "updateRow i c s = s" if "find (\<lambda>r. rowId r = i) (rows s) = None"
  proof -
    from that have "map (\<lambda>row. if rowId row = i then row\<lparr>content := c\<rparr> else row) (rows s) = rows s"
      by (intro map_idI) (simp add: find_id_None)
    then show ?thesis by (simp add: updateRow_def)
  qed
  then show ?thesis
    by (auto simp: submitRow_def split: option.splits)
qed

text \<open>
  After one critique the rows are \<open>a\<close> (\<open>Completed\<close>) and \<open>b\<close> (\<open>Active\<close>): no row has the
  id \<open>zz\<close>, row \<open>a\<close> is not \<open>Active\<close>, and with the challenge taken away row \<open>b\<close> cannot be
  submitted.
\<close>

theorem guards_leave_state_witness:
  "find (\<lambda>r. rowId r = ''zz'') (rows (run oneCritiqued)) = None \<and>
   updateRow ''zz'' ''text'' (run oneCritiqued) = run oneCritiqued \<and>
   submitRow silentWorld ''zz'' (run oneCritiqued) = run oneCritiqued \<and>
   map_option status (find (\<lambda>r. rowId r = ''a'') (rows (run oneCritiqued))) = Some Completed \<and>
   submitRow silentWorld ''a'' (run oneCritiqued) = run oneCritiqued \<and>
   map_option status (find (\<lambda>r. rowId r = ''b'') (rows (run oneCritiqued))) = Some Active \<and>
   submitRow silentWorld ''b'' ((run oneCritiqued)\<lparr>activeChallenge := None\<rparr>) =
     (run oneCritiqued)\<lparr>activeChallenge := None\<rparr>"
proof -
  let ?s = "run oneCritiqued"
  have h1: "find (\<lambda>r. rowId r = ''zz'') (rows ?s) = None" by code_simp
  have h2: "map_option status (find (\<lambda>r. rowId r = ''a'') (rows ?s)) = Some Completed"
    by code_simp
  have h3: "map_option status (find (\<lambda>r. rowId r = ''b'') (rows ?s)) = Some Active"
    by code_simp
  have h4: "activeChallenge (?s\<lparr>activeChallenge := None\<rparr>) = None" by simp
  from guards_leave_state [of "''zz''" ?s "''text''" silentWorld] h1
  have 1: "updateRow ''zz'' ''text'' ?s = ?s" and 2: "submitRow silentWorld ''zz'' ?s = ?s"
    by blast+
  from h2 obtain row where "find (\<lambda>r. rowId r = ''a'') (rows ?s) = Some row"
    and "status row \<noteq> Active" by auto
  with guards_leave_state [of "''a''" ?s "''text''" silentWorld]
  have 3: "submitRow silentWorld ''a'' ?s = ?s" by blast
  from guards_leave_state [of "''b''" "?s\<lparr>activeChallenge := None\<rparr>" "''text''" silentWorld] h4
  have 4: "submitRow silentWorld ''b'' (?s\<lparr>activeChallenge := None\<rparr>) =
      ?s\<lparr>activeChallenge := None\<rparr>" by blast
  from h1 h2 h3 1 2 3 4 show ?thesis by blast
qed

text \<open>
  C4, as the code has it. \<open>submitRow\<close> does not look at the content: the test for a blank
  content is in the key handler of the text area, the only caller of \<open>submitRow\<close>.
  Pressing Enter in a step whose content is empty or white space only returns the state
  it was given: no row is changed or added and no request is sent.
\<close>

theorem blank_enter_is_noop:
  "(\<forall>ch \<in> set (content row). isWhiteSpace ch) \<Longrightarrow> handleKeyDown w e row s = s"
  using trim_blank [of "content row"] by (simp add: handleKeyDown_def)

theorem blank_enter_is_noop_witness:
  "content (rows (run blankTyped) ! 0) = ''   '' \<and>
   handleKeyDown silentWorld enterKey (rows (run blankTyped) ! 0) (run blankTyped) =
     run blankTyped"
proof -
  have c: "content (rows (run blankTyped) ! 0) = ''   ''" by code_simp
  then have h: "\<forall>ch \<in> set (content (rows (run blankTyped) ! 0)). isWhiteSpace ch"
    by (simp add: isWhiteSpace_def)
  from blank_enter_is_noop [OF h] c h show ?thesis by blast
qed

text \<open>
  \<open>submitRow\<close> itself, called on the \<open>Active\<close> step whose content is three spaces, sets
  the step to \<open>Analyzing\<close> and sends a request.
\<close>

theorem submitRow_accepts_blank:
  "map content (rows (run blankTyped)) = [''   ''] \<and>
   map status (rows (run blankTyped)) = [Active] \<and>
   map status (rows (submitRow silentWorld ''a'' (run blankTyped))) = [Analyzing] \<and>
   length (requests (run blankTyped)) = 0 \<and>
   length (requests (submitRow silentWorld ''a'' (run blankTyped))) = 1"
  by code_simp

section \<open>Editing a step\<close>

text \<open>
  C9, as the code has it. \<open>updateRow\<close> overwrites the content of every row with the given
  id, whatever its status, and changes nothing else. What keeps the content of a
  \<open>Completed\<close> step as it is lies in the view: its text area is disabled (\<open>isLocked\<close>), so
  the view never calls \<open>updateRow\<close> for it.
\<close>

theorem updateRow_overwrites_any_status:
  "length (rows (updateRow i c s)) = length (rows s) \<and>
   (\<forall>k < length (rows s).
      rows (updateRow i c s) ! k =
        (if rowId (rows s ! k) = i then (rows s ! k)\<lparr>content := c\<rparr> else rows s ! k)) \<and>
   updateRow i c s = s\<lparr>rows := rows (updateRow i c s)\<rparr> \<and>
   (\<forall>row. status row = Completed \<longrightarrow> isLocked row)"
  by (simp add: updateRow_def isLocked_def)

theorem updateRow_overwrites_any_status_witness:
  "(0::nat) < length (rows (run oneCritiqued)) \<and>
   rowId (rows (run oneCritiqued) ! 0) = ''a'' \<and>
   status (rows (run oneCritiqued) ! 0) = Completed \<and>
   isLocked (rows (run oneCritiqued) ! 0) \<and>
   rows (updateRow ''a'' ''use range sharding'' (run oneCritiqued)) ! 0 =
     (rows (run oneCritiqued) ! 0)\<lparr>content := ''use range sharding''\<rparr>"
proof -
  have h1: "(0::nat) < length (rows (run oneCritiqued))" by code_simp
  have h2: "rowId (rows (run oneCritiqued) ! 0) = ''a''" by code_simp
  have h3: "status (rows (run oneCritiqued) ! 0) = Completed" by code_simp
  from updateRow_overwrites_any_status [of "''a''" "''use range sharding''" "run oneCritiqued"]
    h1 h2 h3
  show ?thesis by auto
qed

text \<open>
  The first step of the sample session is \<open>Completed\<close>; \<open>updateRow\<close> replaces its content.
\<close>

theorem updateRow_changes_completed:
  "status (rows (run oneCritiqued) ! 0) = Completed \<and>
   content (rows (run oneCritiqued) ! 0) = ''use a hash ring for sharding'' \<and>
   status (rows (updateRow ''a'' ''use range sharding'' (run oneCritiqued)) ! 0) = Completed \<and>
   content (rows (updateRow ''a'' ''use range sharding'' (run oneCritiqued)) ! 0) =
     ''use range sharding''"
  by code_simp

section \<open>Finishing a session\<close>

text \<open>
  C5, as the code has it. The button that calls \<open>finishSession\<close> is disabled whenever
  fewer than 2 steps are \<open>Completed\<close>, and also while \<open>isLoading\<close> is set; with exactly 2
  steps \<open>Completed\<close> it is enabled when \<open>isLoading\<close> is not set.
\<close>

theorem finish_gate:
  "(completedCount s < 2 \<longrightarrow> finishDisabled s) \<and>
   (isLoading s \<longrightarrow> finishDisabled s) \<and>
   (completedCount s = 2 \<and> \<not> isLoading s \<longrightarrow> \<not> finishDisabled s)"
  by (simp add: finishDisabled_def completedCount_def)

theorem finish_gate_witness:
  "completedCount (run oneCritiqued) < 2 \<and> finishDisabled (run oneCritiqued) \<and>
   completedCount (run twoCritiqued) = 2 \<and> \<not> isLoading (run twoCritiqued) \<and>
   \<not> finishDisabled (run twoCritiqued) \<and>
   isLoading (run grading) \<and> finishDisabled (run grading)"
proof -
  have h1: "completedCount (run oneCritiqued) < 2" by code_simp
  have h2: "completedCount (run twoCritiqued) = 2" by code_simp
  have h3: "\<not> isLoading (run twoCritiqued)" by code_simp
  have h4: "isLoading (run grading)" by code_simp
  from finish_gate [of "run oneCritiqued"] h1 have 1: "finishDisabled (run oneCritiqued)"
    by blast
  from finish_gate [of "run twoCritiqued"] h2 h3 have 2: "\<not> finishDisabled (run twoCritiqued)"
    by blast
  from finish_gate [of "run grading"] h4 have 3: "finishDisabled (run grading)"
    by blast
  from h1 h2 h3 h4 1 2 3 show ?thesis by blast
qed

text \<open>
  Exactly two steps are \<open>Completed\<close> and the button is disabled: the session has been
  submitted and its grading is in flight.
\<close>

theorem finish_disabled_at_two:
  "completedCount (run grading) = 2 \<and> finishDisabled (run grading)"
  by code_simp

text \<open>
  C7, as the code has it. Without a key \<open>getSuggestedChallenges\<close> resolves with the
  fallback catalog, which is not empty. \<open>evaluateSession\<close> calls \<open>getAI\<close> outside any
  \<open>try\<close>: its promise is rejected with the error, and \<open>finishSession\<close> catches the
  rejection, shows the alert and clears \<open>isLoading\<close>, leaving everything else, the absent
  result included, as it was.
\<close>

theorem missing_key_paths:
  assumes "getAI w = Inl err"
  shows "getSuggestedChallenges w = ([], Resolves 0 FALLBACK_CHALLENGES) \<and>
         FALLBACK_CHALLENGES \<noteq> [] \<and>
         evaluateSession w rs challenge = ([], Rejects 0 err) \<and>
         (activeChallenge s = Some challenge \<longrightarrow>
            finishSession w s =
              s\<lparr>alerts := alerts s @ [''Failed to generate report. Please try again.''],
                isLoading := False\<rparr>)"
  using assms
  by (simp add: getSuggestedChallenges_def evaluateSession_def finishSession_def
      finishSession_rejected_def FALLBACK_CHALLENGES_def)

theorem missing_key_paths_witness:
  "getAI keylessWorld = Inl ApiKeyNotFound \<and>
   activeChallenge (run twoCritiqued) = Some sampleChallenge \<and>
   snd (getSuggestedChallenges keylessWorld) = Resolves 0 FALLBACK_CHALLENGES \<and>
   snd (evaluateSession keylessWorld (validRows (rows (run twoCritiqued))) sampleChallenge) =
     Rejects 0 ApiKeyNotFound \<and>
   sessionResult (finishSession keylessWorld (run twoCritiqued)) = None \<and>
   alerts (finishSession keylessWorld (run twoCritiqued)) =
     [''Failed to generate report. Please try again.'']"
proof -
  let ?s = "run twoCritiqued"
  have h1: "getAI keylessWorld = Inl ApiKeyNotFound" by code_simp
  have h2: "activeChallenge ?s = Some sampleChallenge" by code_simp
  have r: "sessionResult ?s = None" and a: "alerts ?s = []" by code_simp+
  from missing_key_paths [OF h1, of "validRows (rows ?s)" sampleChallenge ?s] h2
  have "snd (getSuggestedChallenges keylessWorld) = Resolves 0 FALLBACK_CHALLENGES"
    and "snd (evaluateSession keylessWorld (validRows (rows ?s)) sampleChallenge) =
      Rejects 0 ApiKeyNotFound"
    and "finishSession keylessWorld ?s =
      ?s\<lparr>alerts := alerts ?s @ [''Failed to generate report. Please try again.''],
         isLoading := False\<rparr>"
    by simp_all
  with h1 h2 r a show ?thesis by simp
qed

text \<open>
  Without a key the promise of \<open>evaluateSession\<close> is rejected: it does not resolve with the
  fallback result.
\<close>

theorem evaluateSession_rejects_without_key:
  "evaluateSession keylessWorld (validRows (rows (run twoCritiqued))) sampleChallenge =
     ([], Rejects 0 ApiKeyNotFound)"
  by code_simp

text \<open>
  C8, as the code has it. The transcript holds one entry (content and critique) for each
  of the last 20 of the rows given to \<open>evaluateSession\<close>, in order: for all of them when
  there are at most 20, and never for more than 20. The prompt that \<open>finishSession\<close>
  sends is built from that transcript of the rows it selected.
\<close>

theorem transcript_window:
  "transcriptEntries rs = map transcriptEntry (drop (length rs - 20) rs) \<and>
   (length rs \<le> 20 \<longrightarrow> transcriptEntries rs = map transcriptEntry rs) \<and>
   length (transcriptEntries rs) = min 20 (length rs) \<and>
   (activeChallenge s = Some challenge \<and> getAI w = Inr u \<longrightarrow>
      requests (finishSession w s) = requests s @
        [nl @ ''    Evaluate this session. Challenge: '' @ title challenge @ ''.'' @
         nl @ ''    Transcript: '' @ join (nl @ nl) (transcriptEntries (validRows (rows s))) @
         nl @ ''    Return JSON.'' @ nl @ ''  ''])"
  using finishSession_requests [of s challenge w u]
  by (auto simp: transcriptEntries_def slice_last_def evaluatePrompt_def transcript_def)

theorem transcript_window_witness:
  "length (validRows (rows (run twoCritiqued))) \<le> 20 \<and>
   activeChallenge (run twoCritiqued) = Some sampleChallenge \<and>
   getAI silentWorld = Inr () \<and>
   transcriptEntries (validRows (rows (run twoCritiqued))) =
     [''User: use a hash ring for sharding'' @ nl @ ''AI: Why hash ring over range sharding?'',
      ''User: replicate each shard three times'' @ nl @ ''AI: Why hash ring over range sharding?''] \<and>
   length (requests (finishSession silentWorld (run twoCritiqued))) =
     Suc (length (requests (run twoCritiqued)))"
proof -
  let ?rs = "validRows (rows (run twoCritiqued))"
  have h1: "length ?rs \<le> 20" by code_simp
  have h2: "getAI silentWorld = Inr ()" by code_simp
  have h3: "activeChallenge (run twoCritiqued) = Some sampleChallenge" by code_simp
  have m: "map transcriptEntry ?rs =
     [''User: use a hash ring for sharding'' @ nl @ ''AI: Why hash ring over range sharding?'',
      ''User: replicate each shard three times'' @ nl @ ''AI: Why hash ring over range sharding?'']"
    by code_simp
  from transcript_window [of ?rs "run twoCritiqued" sampleChallenge silentWorld "()"] h1 h2 h3
  have "transcriptEntries ?rs = map transcriptEntry ?rs"
    and "length (requests (finishSession silentWorld (run twoCritiqued))) =
      Suc (length (requests (run twoCritiqued)))"
    by simp_all
  with h1 h2 h3 m show ?thesis by simp
qed

text \<open>
  Of twenty-one critiqued steps, all selected by \<open>finishSession\<close>, the transcript holds
  twenty entries, and the entry of the first step is not among them.
\<close>

theorem transcript_drops_early_steps:
  "validRows manyRows = manyRows \<and> length (validRows manyRows) = 21 \<and>
   length (transcriptEntries (validRows manyRows)) = 20 \<and>
   transcriptEntry (hd (validRows manyRows)) \<notin> set (transcriptEntries (validRows manyRows))"
  by code_simp

section \<open>The invariant of the step sequence\<close>

text \<open>
  \<open>session_inv\<close> holds initially and every admissible event keeps it: the positions are
  1..N, every step but the last is \<open>Completed\<close>, at most one handler of \<open>submitRow\<close> is
  suspended, and the step it submitted is the last one.
\<close>

lemma positions_last:
  assumes "positions_ok rs" and "rs \<noteq> []"
  shows "stepNumber (last rs) = length rs"
proof -
  from assms have "stepNumber (last rs) = last (map stepNumber rs)" by (simp add: last_map)
  also from assms have "\<dots> = last [1..<Suc (length rs)]" by (simp add: positions_ok_def)
  also have "\<dots> = length rs" using assms(2) by (simp del: upt_Suc add: last_upt)
  finally show ?thesis .
qed

lemma positions_append:
  "positions_ok rs \<Longrightarrow> stepNumber r = Suc (length rs) \<Longrightarrow> positions_ok (rs @ [r])"
  by (simp add: positions_ok_def)

lemma same_fields_map:
  assumes "\<And>r. stepNumber (f r) = stepNumber r"
  shows "positions_ok (map f rs) = positions_ok rs"
  using assms by (simp add: positions_ok_def comp_def)

lemma map_only_id:
  assumes "list_all (\<lambda>r. rowId r \<noteq> i) rs"
  shows "map (\<lambda>r. if rowId r = i then f r else r) rs = rs"
  using assms by (induction rs) simp_all

lemma map_last_only:
  assumes "rs \<noteq> []" and "list_all (\<lambda>r. rowId r \<noteq> i) (butlast rs)" and "rowId (last rs) = i"
  shows "map (\<lambda>r. if rowId r = i then f r else r) rs = butlast rs @ [f (last rs)]"
proof -
  from assms(1) have "rs = butlast rs @ [last rs]" by simp
  then have "map (\<lambda>r. if rowId r = i then f r else r) rs =
      map (\<lambda>r. if rowId r = i then f r else r) (butlast rs) @
      map (\<lambda>r. if rowId r = i then f r else r) [last rs]"
    by (metis map_append)
  with assms(2,3) show ?thesis by (simp add: map_only_id)
qed

lemma filter_remove_nth:
  assumes "k < length xs"
  shows "filter P xs = filter P (take k xs) @ (if P (xs ! k) then [xs ! k] else []) @
           filter P (drop (Suc k) xs)"
proof -
  from assms have "xs = take k xs @ xs ! k # drop (Suc k) xs" by (rule id_take_nth_drop)
  then have "filter P xs = filter P (take k xs @ xs ! k # drop (Suc k) xs)" by simp
  then show ?thesis by simp
qed

lemma remove_nth_interrogate:
  assumes "k < length xs" and "isInterrogate (xs ! k)" and "length (filter isInterrogate xs) \<le> 1"
  shows "filter isInterrogate (remove_nth k xs) = []"
  using assms filter_remove_nth [OF assms(1), of isInterrogate]
  by (simp add: remove_nth_def)

lemma remove_nth_other:
  assumes "k < length xs" and "\<not> isInterrogate (xs ! k)"
  shows "filter isInterrogate (remove_nth k xs) = filter isInterrogate xs"
  using assms filter_remove_nth [OF assms(1), of isInterrogate]
  by (simp add: remove_nth_def)

lemma list_all_remove_nth: "list_all P xs \<Longrightarrow> list_all P (remove_nth k xs)"
  by (auto simp: remove_nth_def list_all_iff dest: in_set_takeD in_set_dropD)

lemma no_interrogate_pending:
  "filter isInterrogate cs = [] \<Longrightarrow> list_all (pending_ok rs) cs"
proof (induction cs)
  case Nil
  then show ?case by simp
next
  case (Cons c cs)
  then show ?case by (cases c) (simp_all split: if_splits)
qed

lemma pending_same_fields:
  assumes "\<And>r. rowId (f r) = rowId r" and "\<And>r. status (f r) = status r"
    and "pending_ok rs c"
  shows "pending_ok (map f rs) c"
proof (cases c)
  case (AfterInterrogate i row promise)
  with assms(3) have ne: "rs \<noteq> []" by simp
  with assms AfterInterrogate show ?thesis
    by (simp add: last_map map_butlast [symmetric] list_all_iff)
next
  case (AfterEvaluate promise)
  then show ?thesis by simp
qed

lemma lifecycle_same_status:
  assumes "\<And>r. status (f r) = status r"
  shows "lifecycle_ok (map f rs) = lifecycle_ok rs"
  using assms by (simp add: lifecycle_ok_def map_butlast [symmetric] list_all_iff)

lemma inv_startChallenge:
  assumes "session_inv s" and "filter isInterrogate (inflight s) = []"
  shows "session_inv (startChallenge uuid challenge s)"
  using assms
  by (simp add: session_inv_def startChallenge_def positions_ok_def lifecycle_ok_def
      newRow_def no_interrogate_pending)

lemma inv_updateRow:
  assumes "session_inv s"
  shows "session_inv (updateRow i c s)"
proof -
  let ?f = "\<lambda>row. if rowId row = i then row\<lparr>content := c\<rparr> else row"
  have f: "\<And>r. rowId (?f r) = rowId r" "\<And>r. status (?f r) = status r"
    "\<And>r. stepNumber (?f r) = stepNumber r"
    by simp_all
  have "list_all (pending_ok (map ?f (rows s))) (inflight s)"
    using assms pending_same_fields [of ?f, OF f(1,2)]
    unfolding session_inv_def list_all_iff by blast
  moreover have "positions_ok (map ?f (rows s))"
    using assms same_fields_map [of ?f, OF f(3)] by (simp add: session_inv_def)
  moreover have "lifecycle_ok (map ?f (rows s))"
    using assms lifecycle_same_status [of ?f, OF f(2)] by (simp add: session_inv_def)
  ultimately show ?thesis
    using assms by (simp add: session_inv_def updateRow_def)
qed

lemma inv_finishSession:
  assumes "session_inv s"
  shows "session_inv (finishSession w s)"
  using assms
  by (auto simp: session_inv_def finishSession_def finishSession_rejected_def Let_def
      split: option.splits prod.splits outcome.splits)

text \<open>
  In a state of the invariant, a row that \<open>submitRow\<close> finds \<open>Active\<close> is the last row, no
  other row has its id, and no handler of \<open>submitRow\<close> is suspended.
\<close>

lemma active_found_is_last:
  assumes inv: "session_inv s"
    and found: "find (\<lambda>r. rowId r = i) (rows s) = Some row" and act: "status row = Active"
  shows "rows s \<noteq> [] \<and> last (rows s) = row \<and> rowId row = i \<and>
         list_all (\<lambda>r. rowId r \<noteq> i) (butlast (rows s)) \<and>
         filter isInterrogate (inflight s) = []"
proof -
  let ?rs = "rows s"
  from found obtain k where k: "k < length ?rs" "?rs ! k = row" "rowId row = i"
    and first: "\<forall>j<k. rowId (?rs ! j) \<noteq> i"
    by (auto simp: find_Some_iff)
  from k(1) have ne: "?rs \<noteq> []" by auto
  from inv have compl: "\<forall>r \<in> set (butlast ?rs). status r = Completed"
    by (simp add: session_inv_def lifecycle_ok_def list_all_iff)
  have "k = length ?rs - 1"
  proof (rule ccontr)
    assume "k \<noteq> length ?rs - 1"
    with k(1) have kb: "k < length (butlast ?rs)" by simp
    then have "butlast ?rs ! k \<in> set (butlast ?rs)" by (rule nth_mem)
    moreover have "butlast ?rs ! k = ?rs ! k" using kb by (simp add: nth_butlast)
    ultimately have "status row = Completed" using compl k(2) by auto
    with act show False by simp
  qed
  with k ne have lastrow: "last ?rs = row" by (simp add: last_conv_nth)
  have others: "list_all (\<lambda>r. rowId r \<noteq> i) (butlast ?rs)"
    unfolding list_all_iff
  proof
    fix r assume "r \<in> set (butlast ?rs)"
    then obtain j where j: "j < length (butlast ?rs)" "butlast ?rs ! j = r"
      by (auto simp: in_set_conv_nth)
    then have "j < k" using \<open>k = length ?rs - 1\<close> by simp
    with first j show "rowId r \<noteq> i" by (auto simp: nth_butlast)
  qed
  have "filter isInterrogate (inflight s) = []"
  proof (rule ccontr)
    assume "filter isInterrogate (inflight s) \<noteq> []"
    then obtain c where c: "c \<in> set (inflight s)" "isInterrogate c"
      by (metis filter_False)
    from inv c(1) have "pending_ok ?rs c" by (simp add: session_inv_def list_all_iff)
    with c(2) have "status (last ?rs) = Analyzing" by (cases c) simp_all
    with lastrow act show False by simp
  qed
  with ne lastrow k(3) others show ?thesis by simp
qed

lemma inv_submitRow:
  assumes inv: "session_inv s"
  shows "session_inv (submitRow w i s)"
proof (cases "find (\<lambda>r. rowId r = i) (rows s)")
  case None
  with inv show ?thesis by (simp add: submitRow_def)
next
  case (Some row)
  show ?thesis
  proof (cases "activeChallenge s")
    case None
    with inv Some show ?thesis by (simp add: submitRow_def)
  next
    case challenge: (Some challenge)
    show ?thesis
    proof (cases "status row = Active")
      case False
      with inv Some challenge show ?thesis by (simp add: submitRow_def)
    next
      case True
      let ?rs = "rows s"
      from active_found_is_last [OF inv Some True]
      have ne: "?rs \<noteq> []" and lastrow: "last ?rs = row" and rid: "rowId row = i"
        and others: "list_all (\<lambda>r. rowId r \<noteq> i) (butlast ?rs)"
        and none: "filter isInterrogate (inflight s) = []"
        by simp_all
      from inv have pos: "positions_ok ?rs" and life: "lifecycle_ok ?rs"
        by (simp_all add: session_inv_def)
      have an: "setStatus i Analyzing ?rs = butlast ?rs @ [row\<lparr>status := Analyzing\<rparr>]"
        unfolding setStatus_def using map_last_only [OF ne others, of "\<lambda>r. r\<lparr>status := Analyzing\<rparr>"]
        by (simp add: lastrow rid)
      have ac: "setStatus i Active (setStatus i Analyzing ?rs) = ?rs"
      proof -
        have "setStatus i Active (setStatus i Analyzing ?rs) = setStatus i Active ?rs"
          by (induction ?rs) (simp_all add: setStatus_def)
        also have "\<dots> = butlast ?rs @ [row\<lparr>status := Active\<rparr>]"
          unfolding setStatus_def using map_last_only [OF ne others, of "\<lambda>r. r\<lparr>status := Active\<rparr>"]
          by (simp add: lastrow rid)
        also have "\<dots> = butlast ?rs @ [last ?rs]" using True lastrow by simp
        finally show ?thesis using ne by simp
      qed
      have pos': "positions_ok (setStatus i Analyzing ?rs)"
        using pos same_fields_map [of "\<lambda>r. if rowId r = i then r\<lparr>status := Analyzing\<rparr> else r" ?rs]
        by (simp add: setStatus_def)
      have life': "lifecycle_ok (setStatus i Analyzing ?rs)"
        using life by (simp add: an lifecycle_ok_def)
      have step_no: "stepNumber row = length ?rs"
        using positions_last [OF pos ne] lastrow by simp
      have pend: "pending_ok (setStatus i Analyzing ?rs) (AfterInterrogate i row p)" for p
        using others rid step_no ne by (simp add: an)
      have old: "list_all (pending_ok rs') (inflight s)" for rs'
        using none by (rule no_interrogate_pending)
      obtain sent analysis where ir: "interrogateRow w (content row)
          (filter (\<lambda>r. stepNumber r < stepNumber row) ?rs) challenge = (sent, analysis)"
        by (cases "interrogateRow w (content row)
          (filter (\<lambda>r. stepNumber r < stepNumber row) ?rs) challenge")
      define s' where "s' = s\<lparr>rows := setStatus i Analyzing ?rs, requests := requests s @ sent\<rparr>"
      have sub: "submitRow w i s =
          (case analysis of
             Rejects t err \<Rightarrow>
               if t = 0 then submitRow_rejected i s'
               else s'\<lparr>inflight := inflight s' @ [AfterInterrogate i row analysis]\<rparr>
           | _ \<Rightarrow> s'\<lparr>inflight := inflight s' @ [AfterInterrogate i row analysis]\<rparr>)"
        using Some challenge True ir
        by (simp add: submitRow_def s'_def Let_def split: outcome.splits)
      have rej: "session_inv (submitRow_rejected i s')"
        using inv ac by (simp add: submitRow_rejected_def s'_def session_inv_def)
      have enq: "session_inv (s'\<lparr>inflight := inflight s' @ [AfterInterrogate i row analysis]\<rparr>)"
        using pos' life' none pend [of analysis] old [of "setStatus i Analyzing ?rs"]
        by (simp add: s'_def session_inv_def)
      show ?thesis
        unfolding sub using rej enq by (cases analysis) simp_all
    qed
  qed
qed

lemma inv_settle:
  assumes inv: "session_inv s"
  shows "session_inv (settle k uuid s)"
proof (cases "length (inflight s) \<le> k")
  case True
  with inv show ?thesis by (simp add: settle_def)
next
  case False
  then have k: "k < length (inflight s)" by simp
  let ?rs = "rows s"
  let ?s' = "s\<lparr>inflight := remove_nth k (inflight s)\<rparr>"
  from inv have pos: "positions_ok ?rs" and life: "lifecycle_ok ?rs"
    and one: "length (filter isInterrogate (inflight s)) \<le> 1"
    and pend: "list_all (pending_ok ?rs) (inflight s)"
    by (simp_all add: session_inv_def)
  show ?thesis
  proof (cases "inflight s ! k")
    case (AfterEvaluate promise)
    then have "filter isInterrogate (remove_nth k (inflight s)) = filter isInterrogate (inflight s)"
      using remove_nth_other [OF k] by simp
    with inv have "session_inv ?s'"
      by (simp add: session_inv_def list_all_remove_nth)
    then have "session_inv (finishSession_fulfilled result ?s')"
      and "session_inv (finishSession_rejected ?s')" for result
      by (simp_all add: session_inv_def finishSession_fulfilled_def finishSession_rejected_def)
    with inv AfterEvaluate k show ?thesis
      by (cases promise) (simp_all add: settle_def)
  next
    case (AfterInterrogate i row promise)
    from pend k have "pending_ok ?rs (inflight s ! k)"
      by (simp add: list_all_length)
    with AfterInterrogate have ne: "?rs \<noteq> []" and lastid: "rowId (last ?rs) = i"
      and step_no: "stepNumber row = length ?rs"
      and others: "list_all (\<lambda>r. rowId r \<noteq> i) (butlast ?rs)"
      by simp_all
    from AfterInterrogate have none: "filter isInterrogate (remove_nth k (inflight s)) = []"
      using remove_nth_interrogate [OF k _ one] by simp
    then have rest: "list_all (pending_ok rs') (remove_nth k (inflight s))" for rs'
      by (rule no_interrogate_pending)
    have rejected: "session_inv (submitRow_rejected i ?s')"
    proof -
      have eq: "setStatus i Active ?rs = butlast ?rs @ [(last ?rs)\<lparr>status := Active\<rparr>]"
        unfolding setStatus_def by (rule map_last_only [OF ne others lastid])
      have "positions_ok (setStatus i Active ?rs)"
        using pos same_fields_map [of "\<lambda>r. if rowId r = i then r\<lparr>status := Active\<rparr> else r" ?rs]
        by (simp add: setStatus_def)
      moreover have "lifecycle_ok (setStatus i Active ?rs)"
        using life by (simp add: eq lifecycle_ok_def)
      ultimately show ?thesis
        using none rest by (simp add: submitRow_rejected_def session_inv_def)
    qed
    have fulfilled: "session_inv (submitRow_fulfilled i row analysis uuid ?s')" for analysis
    proof -
      let ?f = "\<lambda>r. r\<lparr>status := Completed, aiInterrogation := Some (analysisText analysis),
                       depthScore := Some (analysisDepth analysis)\<rparr>"
      have eq: "attach i analysis ?rs = butlast ?rs @ [?f (last ?rs)]"
        unfolding attach_def by (rule map_last_only [OF ne others lastid])
      have len: "length (attach i analysis ?rs) = length ?rs"
        by (simp add: attach_def)
      have "positions_ok (attach i analysis ?rs)"
        using pos same_fields_map [of "\<lambda>r. if rowId r = i then ?f r else r" ?rs]
        by (simp add: attach_def)
      then have "positions_ok (attach i analysis ?rs @ [newRow uuid (stepNumber row + 1)])"
        by (rule positions_append) (simp add: newRow_def step_no len)
      moreover have "lifecycle_ok (attach i analysis ?rs @ [newRow uuid (stepNumber row + 1)])"
        using life by (simp add: eq lifecycle_ok_def butlast_append)
      ultimately show ?thesis
        using none rest by (simp add: submitRow_fulfilled_def session_inv_def)
    qed
    from inv AfterInterrogate k rejected fulfilled show ?thesis
      by (cases promise) (simp_all add: settle_def)
  qed
qed

lemma inv_step:
  assumes "session_inv s" and "admissible s e"
  shows "session_inv (step s e)"
proof (cases e)
  case (Pair w ev)
  with assms show ?thesis
    by (cases ev)
      (simp_all add: inv_startChallenge inv_updateRow inv_submitRow inv_finishSession inv_settle)
qed

lemma inv_initial: "session_inv initial"
  by (simp add: session_inv_def initial_def positions_ok_def lifecycle_ok_def)

lemma inv_foldl:
  "session_inv s \<Longrightarrow> admissible_from s evs \<Longrightarrow> session_inv (foldl step s evs)"
  by (induction evs arbitrary: s) (simp_all add: inv_step)

text \<open>
  On every run in which no session is started while a critique is in flight, the
  positions are 1..N in order and every step but the last is \<open>Completed\<close>.
\<close>

lemma invariant_of_admissible_runs:
  assumes "admissible_from initial evs"
  shows "positions_ok (rows (run evs)) \<and> lifecycle_ok (rows (run evs))"
  using inv_foldl [OF inv_initial assms] by (simp add: run_def session_inv_def)




text \<open>
  C2 fails on this run. The step \<open>b\<close>, at position 2, is submitted; while its critique is
  in flight the session is started again, with the single step \<open>x\<close>; then the critique
  call returns. The suspended handler of \<open>submitRow\<close> finds no row \<open>b\<close> to complete and
  still appends a row, with the position after \<open>b\<close>'s. The rows are then \<open>x\<close> at position
  1 and \<open>y\<close> at position 3, both \<open>Active\<close>: the positions are not 1..N, and a step that
  is not the last one is not \<open>Completed\<close>. The run is not admissible, and the state before
  the critique call returns still has the invariant.
\<close>

theorem late_critique_after_restart:
  "map stepNumber (rows (run restartWhileInFlight)) = [1, 3] \<and>
   map status (rows (run restartWhileInFlight)) = [Active, Active] \<and>
   \<not> positions_ok (rows (run restartWhileInFlight)) \<and>
   \<not> lifecycle_ok (rows (run restartWhileInFlight)) \<and>
   \<not> admissible_from initial restartWhileInFlight \<and>
   positions_ok (rows (run (butlast restartWhileInFlight))) \<and>
   lifecycle_ok (rows (run (butlast restartWhileInFlight)))"
  by code_simp

end
